theory Spec2Isabelle
  imports Main "HOL-Library.Sublist"
begin

section \<open>Python strings\<close>

text \<open>
  A Python \<open>str\<close> is a sequence of Unicode code points: \<open>len\<close>, slicing, \<open>split\<close> and
  \<open>strip\<close> all count code points. A string is therefore a list of code points, and
  \<open>ascii\<close> embeds an ASCII literal. The decorations of the bot's messages that lie
  outside ASCII are written as their code points.
\<close>

type_synonym pystr = "nat list"

definition ascii :: "string \<Rightarrow> pystr" where
  "ascii s = map of_char s"

text \<open>\<open>str(n)\<close> of a non-negative integer: its decimal digits.\<close>

function str_nat :: "nat \<Rightarrow> pystr" where
  "str_nat n = (if n < 10 then [48 + n] else str_nat (n div 10) @ [48 + n mod 10])"
  by pat_completeness auto
termination
  by (relation "measure id") auto

declare str_nat.simps [simp del]

text \<open>\<open>str(i)\<close> of an integer.\<close>

definition str_int :: "int \<Rightarrow> pystr" where
  "str_int i = (if i < 0 then 45 # str_nat (nat (- i)) else str_nat (nat i))"

text \<open>
  \<open>str.isspace\<close> of one code point, which is what \<open>str.strip()\<close> without an argument
  removes: the code points U+0009 to U+000D, U+001C to U+0020, U+0085, U+00A0, U+1680,
  U+2000 to U+200A, U+2028, U+2029, U+202F, U+205F and U+3000.
\<close>

definition isspace :: "nat \<Rightarrow> bool" where
  "isspace c \<longleftrightarrow>
     (9 \<le> c \<and> c \<le> 13) \<or> (28 \<le> c \<and> c \<le> 32) \<or> c = 0x85 \<or> c = 0xA0 \<or> c = 0x1680 \<or>
     (0x2000 \<le> c \<and> c \<le> 0x200A) \<or> c = 0x2028 \<or> c = 0x2029 \<or> c = 0x202F \<or>
     c = 0x205F \<or> c = 0x3000"

text \<open>\<open>s.strip()\<close>: leading and trailing whitespace removed.\<close>

definition strip :: "pystr \<Rightarrow> pystr" where
  "strip s = rev (dropWhile isspace (rev (dropWhile isspace s)))"

text \<open>
  \<open>s.split('\n')\<close>: the pieces between line feeds (code point 10), empty pieces kept, so
  the result is never empty (\<open>''.split('\n') == ['']\<close>) and the second branch of the
  \<open>case\<close> is never taken.
\<close>

fun split_nl :: "pystr \<Rightarrow> pystr list" where
  "split_nl [] = [[]]"
| "split_nl (c # cs) =
     (if c = 10 then [] # split_nl cs
      else (case split_nl cs of l # ls \<Rightarrow> (c # l) # ls | [] \<Rightarrow> [[c]]))"

text \<open>
  \<open>token[-6:]\<close>: a negative start counts from the end and is clamped at the start of the
  string, so the slice is the whole string when it has fewer than six code points.
\<close>

definition last_six :: "pystr \<Rightarrow> pystr" where
  "last_six token = drop (if length token < 6 then 0 else length token - 6) token"

text \<open>
  \<^verbatim>\<open>def format_token(token): return f"...{token[-6:]}" if len(token) > 6 else token\<close>
\<close>

definition format_token :: "pystr \<Rightarrow> pystr" where
  "format_token token =
     (if length token > 6 then ascii ''...'' @ last_six token else token)"

section \<open>Python values, exceptions and effects\<close>

text \<open>
  The body of a response, as \<open>response.json()\<close> returns it: a JSON value as a Python
  value. JSON \<open>null\<close> is Python's \<open>None\<close>, the same value the two remote operations
  return as their absent result. A dict is the list of its items, each key once. Numbers
  with a fraction or an exponent (Python floats) are left out of the model.
\<close>

datatype pyval =
    PNone
  | PBool bool
  | PInt int
  | PStr pystr
  | PList "pyval list"
  | PDict "(pystr \<times> pyval) list"

text \<open>The truth value of \<open>x\<close> in \<open>... if x else ...\<close>.\<close>

fun truthy :: "pyval \<Rightarrow> bool" where
  "truthy PNone = False"
| "truthy (PBool b) = b"
| "truthy (PInt i) = (i \<noteq> 0)"
| "truthy (PStr s) = (s \<noteq> [])"
| "truthy (PList vs) = (vs \<noteq> [])"
| "truthy (PDict kvs) = (kvs \<noteq> [])"

fun type_name :: "pyval \<Rightarrow> string" where
  "type_name PNone = ''NoneType''"
| "type_name (PBool b) = ''bool''"
| "type_name (PInt i) = ''int''"
| "type_name (PStr s) = ''str''"
| "type_name (PList vs) = ''list''"
| "type_name (PDict kvs) = ''dict''"

text \<open>
  Exceptions. \<open>Exc cls msg\<close> is an instance of a class \<open>cls\<close> that derives from
  \<open>Exception\<close>, with \<open>str(e) = msg\<close>. \<open>asyncio.CancelledError\<close> derives from
  \<open>BaseException\<close> only, so an \<open>except Exception\<close> clause does not catch it. A call
  either raises (\<open>Inl\<close>) or returns (\<open>Inr\<close>).
\<close>

datatype pyexc = CancelledError | Exc string pystr

type_synonym 'a result = "pyexc + 'a"

text \<open>
  What a coroutine does to the outside: a record handed to \<open>logger\<close>, and a call of
  \<open>bot.send_message(user_id, text)\<close>. Whether the chat platform accepts the message is
  the call's outcome, which the environment supplies.
\<close>

datatype level = INFO | WARNING | ERROR

datatype effect = Log level pystr | Send int pystr

text \<open>
  \<open>str(v)\<close>, which is how an f-string formats a value. For a list or a dict it is Python's
  \<open>repr\<close>, which is taken as a parameter.
\<close>

fun py_str :: "(pyval \<Rightarrow> pystr) \<Rightarrow> pyval \<Rightarrow> pystr" where
  "py_str repr PNone = ascii ''None''"
| "py_str repr (PBool b) = (if b then ascii ''True'' else ascii ''False'')"
| "py_str repr (PInt i) = str_int i"
| "py_str repr (PStr s) = s"
| "py_str repr v = repr v"

text \<open>
  \<open>v.get(key, dflt)\<close>: only a dict has the method; on any other value the attribute
  lookup raises \<open>AttributeError\<close>.
\<close>

fun dict_get :: "pyval \<Rightarrow> pystr \<Rightarrow> pyval \<Rightarrow> pyval result" where
  "dict_get (PDict kvs) key dflt = Inr (case map_of kvs key of Some v \<Rightarrow> v | None \<Rightarrow> dflt)"
| "dict_get v key dflt =
     Inl (Exc ''AttributeError''
       ([39] @ ascii (type_name v) @ [39] @ ascii '' object has no attribute '' @
        [39] @ ascii ''get'' @ [39]))"

section \<open>Remote status client\<close>

text \<open>
  The two operations differ in the URL and in the word they log. What the network does is
  their second argument: \<open>session.get\<close> raises, or returns a response with a status and
  with the outcome \<open>response.json()\<close> has when it is called.
  \<^verbatim>\<open>
  async def get_position(token):
      ts = format_token(token)
      try:
          async with aiohttp.ClientSession() as session:
              async with session.get(POSITION_URL, headers=get_headers(token),
                                     timeout=None) as response:
                  if response.status == 200:
                      return await response.json()
                  logger.warning(f"[{ts}] Position error: HTTP {response.status}")
                  return None
      except Exception as e:
          logger.error(f"[{ts}] Position error: {str(e)}")
          return None
  \<close>
\<close>

type_synonym http_outcome = "(nat \<times> pyval result) result"

definition get_position :: "pystr \<Rightarrow> http_outcome \<Rightarrow> effect list \<times> pyval result" where
  "get_position token http =
     (let ts = format_token token in
      case http of
        Inr (status, body) \<Rightarrow>
          if status = 200 then
            (case body of
               Inr v \<Rightarrow> ([], Inr v)
             | Inl CancelledError \<Rightarrow> ([], Inl CancelledError)
             | Inl (Exc cls msg) \<Rightarrow>
                 ([Log ERROR (ascii ''['' @ ts @ ascii ''] Position error: '' @ msg)], Inr PNone))
          else
            ([Log WARNING (ascii ''['' @ ts @ ascii ''] Position error: HTTP '' @ str_nat status)],
             Inr PNone)
      | Inl CancelledError \<Rightarrow> ([], Inl CancelledError)
      | Inl (Exc cls msg) \<Rightarrow>
          ([Log ERROR (ascii ''['' @ ts @ ascii ''] Position error: '' @ msg)], Inr PNone))"

definition ping_server :: "pystr \<Rightarrow> http_outcome \<Rightarrow> effect list \<times> pyval result" where
  "ping_server token http =
     (let ts = format_token token in
      case http of
        Inr (status, body) \<Rightarrow>
          if status = 200 then
            (case body of
               Inr v \<Rightarrow> ([], Inr v)
             | Inl CancelledError \<Rightarrow> ([], Inl CancelledError)
             | Inl (Exc cls msg) \<Rightarrow>
                 ([Log ERROR (ascii ''['' @ ts @ ascii ''] Ping error: '' @ msg)], Inr PNone))
          else
            ([Log WARNING (ascii ''['' @ ts @ ascii ''] Ping error: HTTP '' @ str_nat status)],
             Inr PNone)
      | Inl CancelledError \<Rightarrow> ([], Inl CancelledError)
      | Inl (Exc cls msg) \<Rightarrow>
          ([Log ERROR (ascii ''['' @ ts @ ascii ''] Ping error: '' @ msg)], Inr PNone))"

section \<open>Polling loop\<close>

text \<open>
  \<^verbatim>\<open>
  async def monitor_token(bot, user_id, token):
      try:
          while True:
              ping_data = await ping_server(token)
              position_data = await get_position(token)
              status = (f"\<bullet> *{format_token(token)}*:\n"
                        f"  Status: `{ping_data.get('status', 'N/A') if ping_data else 'Error'}`\n"
                        f"  Position: `{position_data.get('behind', 'N/A') if position_data else 'Error'}`")
              await bot.send_message(user_id, f"<U+1F504> Status Update:\n{status}",
                                     parse_mode="Markdown")
      except asyncio.CancelledError:
          logger.info(f"Monitoring stopped for token {format_token(token)}")
      except Exception as e:
          logger.error(f"Critical failure: {traceback.format_exc()}")
          await bot.send_message(user_id,
              f"<U+274C> Monitoring crashed for {format_token(token)} - restart required")
  \<close>
  One iteration of the loop suspends three times; \<open>iter_env\<close> holds what the outside
  answers at each of them. A cancellation of the task arrives as \<open>CancelledError\<close> at the
  suspension that is pending.
\<close>

record iter_env =
  ping_http :: http_outcome
  position_http :: http_outcome
  send_result :: "unit result"

definition status_field :: "(pyval \<Rightarrow> pystr) \<Rightarrow> pyval \<Rightarrow> pystr \<Rightarrow> pystr result" where
  "status_field repr data key =
     (if truthy data then
        (case dict_get data key (PStr (ascii ''N/A'')) of
           Inl e \<Rightarrow> Inl e
         | Inr v \<Rightarrow> Inr (py_str repr v))
      else Inr (ascii ''Error''))"

definition status_update :: "pystr \<Rightarrow> pystr \<Rightarrow> pystr \<Rightarrow> pystr" where
  "status_update token st pos =
     [0x1F504] @ ascii '' Status Update:\<newline>'' @
     [0x2022] @ ascii '' *'' @ format_token token @ ascii ''*:\<newline>'' @
     ascii ''  Status: `'' @ st @ ascii ''`\<newline>'' @
     ascii ''  Position: `'' @ pos @ ascii ''`''"

text \<open>The text of the notification in the second \<open>except\<close> clause.\<close>

definition crash_notice :: "pystr \<Rightarrow> pystr" where
  "crash_notice token =
     [0x274C] @ ascii '' Monitoring crashed for '' @ format_token token @
     ascii '' - restart required''"

text \<open>
  The body of \<open>while True\<close>. The f-string is evaluated left to right, so the ping field
  can raise before the position field is looked at.
\<close>

definition iteration ::
  "(pyval \<Rightarrow> pystr) \<Rightarrow> int \<Rightarrow> pystr \<Rightarrow> iter_env \<Rightarrow> effect list \<times> unit result" where
  "iteration repr user_id token env =
     (case ping_server token (ping_http env) of
        (l1, Inl e) \<Rightarrow> (l1, Inl e)
      | (l1, Inr ping_data) \<Rightarrow>
          (case get_position token (position_http env) of
             (l2, Inl e) \<Rightarrow> (l1 @ l2, Inl e)
           | (l2, Inr position_data) \<Rightarrow>
               (case status_field repr ping_data (ascii ''status'') of
                  Inl e \<Rightarrow> (l1 @ l2, Inl e)
                | Inr st \<Rightarrow>
                    (case status_field repr position_data (ascii ''behind'') of
                       Inl e \<Rightarrow> (l1 @ l2, Inl e)
                     | Inr pos \<Rightarrow>
                         (l1 @ l2 @ [Send user_id (status_update token st pos)],
                          send_result env)))))"

text \<open>
  The two \<open>except\<close> clauses. On cancellation the coroutine logs and returns. On any other
  exception it evaluates \<open>traceback.format_exc()\<close> first; the module never imports
  \<open>traceback\<close> (its imports are \<open>os\<close>, \<open>asyncio\<close>, \<open>logging\<close>, \<open>time\<close>, \<open>typing\<close>,
  \<open>aiohttp\<close> and \<open>telegram\<close>), so that evaluation raises \<open>NameError\<close> inside the handler
  and neither \<open>logger.error\<close> nor \<open>bot.send_message\<close> below it is reached: the coroutine
  ends with the \<open>NameError\<close>.
\<close>

datatype loop_status = Running | Finished "unit result"

definition name_error :: pyexc where
  "name_error =
     Exc ''NameError''
       (ascii ''name '' @ [39] @ ascii ''traceback'' @ [39] @ ascii '' is not defined'')"

definition handler :: "pystr \<Rightarrow> pyexc \<Rightarrow> effect list \<times> unit result" where
  "handler token e =
     (case e of
        CancelledError \<Rightarrow>
          ([Log INFO (ascii ''Monitoring stopped for token '' @ format_token token)], Inr ())
      | Exc cls msg \<Rightarrow> ([], Inl name_error))"

text \<open>
  The loop itself runs for as long as its iterations complete. It is run here on a finite
  prefix of its environment, one \<open>iter_env\<close> for each iteration: when the prefix is used
  up the loop is still \<open>Running\<close>, otherwise it has \<open>Finished\<close> with the outcome of the
  coroutine.
\<close>

fun monitor_token ::
  "(pyval \<Rightarrow> pystr) \<Rightarrow> int \<Rightarrow> pystr \<Rightarrow> iter_env list \<Rightarrow> effect list \<times> loop_status" where
  "monitor_token repr user_id token [] = ([], Running)"
| "monitor_token repr user_id token (env # envs) =
     (case iteration repr user_id token env of
        (effs, Inr u) \<Rightarrow>
          (case monitor_token repr user_id token envs of
             (effs', st) \<Rightarrow> (effs @ effs', st))
      | (effs, Inl e) \<Rightarrow>
          (case handler token e of
             (effs', r) \<Rightarrow> (effs @ effs', Finished r)))"

section \<open>Bot state and command handlers\<close>

text \<open>
  \<^verbatim>\<open>
  user_tokens: Dict[int, List[str]] = {}
  monitoring_tasks: Dict[int, List[asyncio.Task]] = {}
  \<close>
  An \<open>asyncio.Task\<close> is an object that \<open>monitoring_tasks\<close> refers to; the tasks created
  so far are kept in a store, and a handle is an index into it. \<open>trace\<close> collects what
  the polling loops did.
\<close>

record task =
  task_user :: int
  task_token :: pystr
  task_started :: bool
  cancel_requested :: bool
  task_status :: loop_status

record bot_state =
  user_tokens :: "int \<rightharpoonup> pystr list"
  monitoring_tasks :: "int \<rightharpoonup> nat list"
  tasks :: "task list"
  trace :: "effect list"

definition initial_state :: bot_state where
  "initial_state = \<lparr>user_tokens = Map.empty, monitoring_tasks = Map.empty, tasks = [], trace = []\<rparr>"

text \<open>\<open>user_tokens.get(user_id, [])\<close> and the handles tracked for a user.\<close>

definition tokens_of :: "bot_state \<Rightarrow> int \<Rightarrow> pystr list" where
  "tokens_of s user_id = (case user_tokens s user_id of None \<Rightarrow> [] | Some ts \<Rightarrow> ts)"

definition handles :: "bot_state \<Rightarrow> int \<Rightarrow> nat list" where
  "handles s user_id = (case monitoring_tasks s user_id of None \<Rightarrow> [] | Some hs \<Rightarrow> hs)"

text \<open>
  \<^verbatim>\<open>
  async def process_tokens(update, context):
      user_id = update.effective_user.id
      tokens = [t.strip() for t in update.message.text.split('\n') if t.strip()]
      if not tokens:
          await update.message.reply_text("<U+274C> No valid tokens found.")
          return ConversationHandler.END
      user_tokens.setdefault(user_id, []).extend(tokens)
      await update.message.reply_text(
          f"<U+2705> Added {len(tokens)} tokens\nTotal: {len(user_tokens[user_id])}", ...)
      return ConversationHandler.END
  \<close>
  A handler returns the new state and the text it replies with.
\<close>

definition no_valid_tokens :: pystr where
  "no_valid_tokens = [0x274C] @ ascii '' No valid tokens found.''"

definition added_reply :: "nat \<Rightarrow> nat \<Rightarrow> pystr" where
  "added_reply n m =
     [0x2705] @ ascii '' Added '' @ str_nat n @ ascii '' tokens\<newline>Total: '' @ str_nat m"

definition process_tokens :: "bot_state \<Rightarrow> int \<Rightarrow> pystr \<Rightarrow> bot_state \<times> pystr" where
  "process_tokens s user_id text =
     (let tokens = map strip (filter (\<lambda>t. strip t \<noteq> []) (split_nl text)) in
      if tokens = [] then (s, no_valid_tokens)
      else
        (let s' = s\<lparr>user_tokens := (user_tokens s)(user_id \<mapsto> tokens_of s user_id @ tokens)\<rparr>
         in (s', added_reply (length tokens) (length (tokens_of s' user_id)))))"

text \<open>
  The \<open>remove_\<close> branch of \<open>handle_token_actions\<close>: \<open>tokens.pop(index)\<close> when
  \<open>0 <= index < len(tokens)\<close>.
\<close>

definition invalid_selection :: pystr where
  "invalid_selection = [0x274C] @ ascii '' Invalid token selection''"

definition removed_reply :: "pystr \<Rightarrow> pystr" where
  "removed_reply removed = [0x2705] @ ascii '' Removed token: '' @ format_token removed"

definition remove_token :: "bot_state \<Rightarrow> int \<Rightarrow> int \<Rightarrow> bot_state \<times> pystr" where
  "remove_token s user_id index =
     (let tokens = tokens_of s user_id in
      if 0 \<le> index \<and> index < int (length tokens) then
        (s\<lparr>user_tokens :=
             (user_tokens s)(user_id \<mapsto> take (nat index) tokens @ drop (Suc (nat index)) tokens)\<rparr>,
         removed_reply (tokens ! nat index))
      else (s, invalid_selection))"

text \<open>
  \<^verbatim>\<open>
  async def start_monitoring(query, context, user_id):
      if user_id in monitoring_tasks:
          await query.edit_message_text("<U+1F514> Monitoring already running")
          return
      monitoring_tasks[user_id] = []
      for token in user_tokens.get(user_id, []):
          task = asyncio.create_task(monitor_token(context.bot, user_id, token))
          monitoring_tasks[user_id].append(task)
      await query.edit_message_text("<U+1F680> Started continuous monitoring for all tokens")

  async def stop_monitoring(query, user_id):
      if user_id in monitoring_tasks:
          for task in monitoring_tasks[user_id]:
              task.cancel()
          del monitoring_tasks[user_id]
          await query.edit_message_text("<U+1F6D1> Stopped monitoring")
      else:
          await query.edit_message_text("<U+274C> No active monitoring")
  \<close>
  \<open>spawn\<close> is one turn of the \<open>for\<close> loop. The key is present whenever it appends, so
  \<open>monitoring_tasks[user_id]\<close> cannot raise there.
\<close>

definition already_running :: pystr where
  "already_running = [0x1F514] @ ascii '' Monitoring already running''"

definition started :: pystr where
  "started = [0x1F680] @ ascii '' Started continuous monitoring for all tokens''"

definition stopped :: pystr where
  "stopped = [0x1F6D1] @ ascii '' Stopped monitoring''"

definition no_active_monitoring :: pystr where
  "no_active_monitoring = [0x274C] @ ascii '' No active monitoring''"

definition new_task :: "int \<Rightarrow> pystr \<Rightarrow> task" where
  "new_task user_id token =
     \<lparr>task_user = user_id, task_token = token, task_started = False,
      cancel_requested = False, task_status = Running\<rparr>"

definition create_task :: "bot_state \<Rightarrow> int \<Rightarrow> pystr \<Rightarrow> bot_state \<times> nat" where
  "create_task s user_id token =
     (s\<lparr>tasks := tasks s @ [new_task user_id token]\<rparr>, length (tasks s))"

definition spawn :: "int \<Rightarrow> pystr \<Rightarrow> bot_state \<Rightarrow> bot_state" where
  "spawn user_id token s =
     (case create_task s user_id token of
        (s', t) \<Rightarrow> s'\<lparr>monitoring_tasks := (monitoring_tasks s')(user_id \<mapsto> handles s' user_id @ [t])\<rparr>)"

definition start_monitoring :: "bot_state \<Rightarrow> int \<Rightarrow> bot_state \<times> pystr" where
  "start_monitoring s user_id =
     (if monitoring_tasks s user_id \<noteq> None then (s, already_running)
      else
        (fold (spawn user_id) (tokens_of s user_id)
           (s\<lparr>monitoring_tasks := (monitoring_tasks s)(user_id \<mapsto> [])\<rparr>),
         started))"

text \<open>
  \<open>task.cancel()\<close> requests the cancellation of a task that is not done, and does nothing
  to one that is.
\<close>

definition cancel :: "task \<Rightarrow> task" where
  "cancel t = (if task_status t = Running then t\<lparr>cancel_requested := True\<rparr> else t)"

definition cancel_handle :: "nat \<Rightarrow> task list \<Rightarrow> task list" where
  "cancel_handle h ts = (if h < length ts then ts[h := cancel (ts ! h)] else ts)"

definition stop_monitoring :: "bot_state \<Rightarrow> int \<Rightarrow> bot_state \<times> pystr" where
  "stop_monitoring s user_id =
     (case monitoring_tasks s user_id of
        Some hs \<Rightarrow>
          (s\<lparr>tasks := fold cancel_handle hs (tasks s),
             monitoring_tasks := (monitoring_tasks s)(user_id := None)\<rparr>,
           stopped)
      | None \<Rightarrow> (s, no_active_monitoring))"

text \<open>
  \<open>handle_button_click\<close> first gives a user without an entry an empty token list, then
  dispatches on the callback data. The buttons that only show a menu or query once are
  \<open>OtherButton\<close>.
\<close>

datatype button = StartMonitoring | StopMonitoring | RemoveToken int | OtherButton

definition handle_button_click :: "bot_state \<Rightarrow> int \<Rightarrow> button \<Rightarrow> bot_state \<times> pystr" where
  "handle_button_click s user_id b =
     (let s' = (if user_tokens s user_id = None
                then s\<lparr>user_tokens := (user_tokens s)(user_id \<mapsto> [])\<rparr> else s)
      in case b of
           StartMonitoring \<Rightarrow> start_monitoring s' user_id
         | StopMonitoring \<Rightarrow> stop_monitoring s' user_id
         | RemoveToken i \<Rightarrow> remove_token s' user_id i
         | OtherButton \<Rightarrow> (s', []))"

section \<open>Scheduling of the polling loops\<close>

text \<open>
  The event loop resumes one task at a time. A step runs one iteration of the task's loop;
  a task whose cancellation was requested gets \<open>CancelledError\<close> at its first
  suspension. A task that is cancelled before it ever ran ends with \<open>CancelledError\<close>
  without entering the coroutine, so it logs nothing. An exception that ends a task
  stays in that task. The bot is driven by a sequence of events: button clicks, token
  submissions and steps of tasks.
\<close>

definition deliver_cancel :: "task \<Rightarrow> iter_env \<Rightarrow> iter_env" where
  "deliver_cancel t env =
     (if cancel_requested t then env\<lparr>ping_http := Inl CancelledError\<rparr> else env)"

definition task_step :: "(pyval \<Rightarrow> pystr) \<Rightarrow> bot_state \<Rightarrow> nat \<Rightarrow> iter_env \<Rightarrow> bot_state" where
  "task_step repr s tid env =
     (if tid < length (tasks s) then
        (let t = tasks s ! tid in
         case task_status t of
           Finished r \<Rightarrow> s
         | Running \<Rightarrow>
             if cancel_requested t \<and> \<not> task_started t then
               s\<lparr>tasks := (tasks s)[tid := t\<lparr>task_status := Finished (Inl CancelledError)\<rparr>]\<rparr>
             else
               (case monitor_token repr (task_user t) (task_token t) [deliver_cancel t env] of
                  (effs, st) \<Rightarrow>
                    s\<lparr>tasks := (tasks s)[tid := t\<lparr>task_started := True, task_status := st\<rparr>],
                      trace := trace s @ effs\<rparr>))
      else s)"

datatype event = Button int button | Text int pystr | Step nat iter_env

fun exec :: "(pyval \<Rightarrow> pystr) \<Rightarrow> event \<Rightarrow> bot_state \<Rightarrow> bot_state" where
  "exec repr (Button user_id b) s = fst (handle_button_click s user_id b)"
| "exec repr (Text user_id text) s = fst (process_tokens s user_id text)"
| "exec repr (Step tid env) s = task_step repr s tid env"

definition run :: "(pyval \<Rightarrow> pystr) \<Rightarrow> event list \<Rightarrow> bot_state \<Rightarrow> bot_state" where
  "run repr evs s = fold (exec repr) evs s"

section \<open>Notions the properties are stated with\<close>

text \<open>Whether an effect is a message sent to a user.\<close>

fun is_send :: "effect \<Rightarrow> bool" where
  "is_send (Send user_id text) = True"
| "is_send (Log lvl text) = False"

text \<open>Whether an event is a step of a polling loop.\<close>

fun is_step :: "event \<Rightarrow> bool" where
  "is_step (Step tid env) = True"
| "is_step (Button user_id b) = False"
| "is_step (Text user_id submitted) = False"

text \<open>
  Lines and trimming as the specification words them: a submission is its lines joined
  by line feeds, and the trimmed form of a line is the line without the whitespace at
  its two ends.
\<close>

fun join_nl :: "pystr list \<Rightarrow> pystr" where
  "join_nl [] = []"
| "join_nl [l] = l"
| "join_nl (l # ls) = l @ 10 # join_nl ls"


text \<open>
  In a well-formed state every handle of a session is a task of the store that belongs
  to the session's user, and every task that is running with no cancellation requested
  is a handle of its user's session.
\<close>

definition wf_state :: "bot_state \<Rightarrow> bool" where
  "wf_state s \<longleftrightarrow>
     (\<forall>u hs. monitoring_tasks s u = Some hs \<longrightarrow>
        (\<forall>h \<in> set hs. h < length (tasks s) \<and> task_user (tasks s ! h) = u)) \<and>
     (\<forall>i < length (tasks s).
        task_status (tasks s ! i) = Running \<and> \<not> cancel_requested (tasks s ! i) \<longrightarrow>
        (\<exists>hs. monitoring_tasks s (task_user (tasks s ! i)) = Some hs \<and> i \<in> set hs))"

section \<open>Sample inputs\<close>

text \<open>
  A stand-in for \<open>repr\<close>, a token, and three things the outside can answer during one
  iteration: both remote
  calls fail (the ping with HTTP 503, the position query with a connection error); the
  ping answers 200 with a JSON array as its body; and the chat platform rejects a
  message.
\<close>

definition sample_repr :: "pyval \<Rightarrow> pystr" where
  "sample_repr v = []"

definition sample_token :: pystr where
  "sample_token = ascii ''aaaaaaaaaa1111''"

definition second_token :: pystr where
  "second_token = ascii ''bbbbbbbbbb2222''"

definition unavailable_env :: "unit result \<Rightarrow> iter_env" where
  "unavailable_env sent =
     \<lparr>ping_http = Inr (503, Inr PNone),
      position_http = Inl (Exc ''ClientConnectorError'' (ascii ''Cannot connect to host'')),
      send_result = sent\<rparr>"

definition list_body_env :: iter_env where
  "list_body_env =
     \<lparr>ping_http = Inr (200, Inr (PList [PInt 1])),
      position_http = Inr (200, Inr (PDict [(ascii ''behind'', PInt 5)])),
      send_result = Inr ()\<rparr>"

definition rejected :: "unit result" where
  "rejected = Inl (Exc ''Forbidden'' (ascii ''Forbidden: bot was blocked by the user''))"

text \<open>
  The state after user 7 has submitted the two tokens, and the state after the user has
  then started monitoring.
\<close>

definition registered_state :: bot_state where
  "registered_state =
     \<lparr>user_tokens = [7 \<mapsto> [sample_token, second_token]], monitoring_tasks = Map.empty,
      tasks = [], trace = []\<rparr>"

definition monitoring_state :: bot_state where
  "monitoring_state =
     \<lparr>user_tokens = [7 \<mapsto> [sample_token, second_token]], monitoring_tasks = [7 \<mapsto> [0, 1]],
      tasks = [new_task 7 sample_token, new_task 7 second_token], trace = []\<rparr>"



text \<open>The state after both polling loops of that session have ended with an exception.\<close>

definition crashed_state :: bot_state where
  "crashed_state =
     monitoring_state\<lparr>tasks :=
       [(new_task 7 sample_token)\<lparr>task_started := True, task_status := Finished (Inl name_error)\<rparr>,
        (new_task 7 second_token)\<lparr>task_started := True, task_status := Finished (Inl name_error)\<rparr>]\<rparr>"

section \<open>Properties of the redacted form\<close>

lemma ascii_Nil [simp]: "ascii [] = []"
  by (simp add: ascii_def)

lemma ascii_Cons [simp]: "ascii (c # cs) = of_char c # ascii cs"
  by (simp add: ascii_def)

lemma length_ascii [simp]: "length (ascii s) = length s"
  by (simp add: ascii_def)

lemma length_last_six: "6 \<le> length t \<Longrightarrow> length (last_six t) = 6"
  by (simp add: last_six_def)

lemma last_six_suffix: "take (length t - 6) t @ last_six t = t"
  by (simp add: last_six_def)

lemma dots_prefix:
  assumes eq: "ds @ s = a @ p @ r" and len: "length a + length p \<le> length ds"
  shows "set p \<subseteq> set ds"
proof -
  have "take (length (a @ p)) (ds @ s) = take (length (a @ p)) ((a @ p) @ r)"
    using eq by simp
  then have "take (length a + length p) ds = a @ p"
    using len by simp
  then have "set (a @ p) \<subseteq> set ds"
    by (metis set_take_subset)
  then show ?thesis by simp
qed

lemma format_token_contains_imp:
  assumes long: "6 < length t" and sub: "sublist t (format_token t)"
  shows "length t \<le> 9 \<and> set (take (length t - 6) t) \<subseteq> {46}"
proof -
  let ?p = "take (length t - 6) t"
  let ?s = "last_six t"
  have ft: "format_token t = [46, 46, 46] @ ?s"
    using long by (simp add: format_token_def)
  have len_s: "length ?s = 6"
    using long by (simp add: length_last_six)
  obtain a b where ab: "format_token t = a @ t @ b"
    using sub by (auto simp: sublist_def)
  have "length (format_token t) = 9"
    using ft len_s by simp
  then have total: "length a + length t + length b = 9"
    using ab by (metis length_append add.assoc)
  then have short: "length t \<le> 9"
    by arith
  have lp: "length ?p = length t - 6"
    by simp
  have "[46, 46, 46] @ ?s = a @ ?p @ (?s @ b)"
    using ft ab last_six_suffix [of t] by (metis append.assoc)
  moreover have "length a + length ?p \<le> length [46, 46, 46 :: nat]"
    using total long lp by simp
  ultimately have "set ?p \<subseteq> set [46, 46, 46 :: nat]"
    by (rule dots_prefix)
  then show ?thesis
    using short by auto
qed

lemma format_token_contains_if:
  assumes long: "6 < length t" and short: "length t \<le> 9"
    and dots: "set (take (length t - 6) t) \<subseteq> {46}"
  shows "sublist t (format_token t)"
proof -
  let ?k = "length t - 6"
  have p: "take ?k t = replicate ?k 46"
    using dots long by (intro replicate_eqI) auto
  have "replicate (3 - ?k) (46 :: nat) @ replicate ?k 46 = replicate ((3 - ?k) + ?k) 46"
    by (simp only: replicate_add)
  moreover have "(3 - ?k) + ?k = 3"
    using long short by arith
  ultimately have "[46, 46, 46 :: nat] = replicate (3 - ?k) 46 @ replicate ?k 46"
    by (simp add: numeral_3_eq_3)
  then have "format_token t = replicate (3 - ?k) 46 @ (take ?k t @ last_six t) @ []"
    using long p by (simp add: format_token_def)
  then have "format_token t = replicate (3 - ?k) 46 @ t @ []"
    by (simp only: last_six_suffix)
  then show ?thesis
    unfolding sublist_def by blast
qed

text \<open>
  Claim C8, as amended. A token longer than six code points is surfaced as three dots
  followed by its last six code points. That form contains the whole token only when the
  token is itself one to three dots followed by its last six code points, hence never for
  a token longer than nine code points. A token of six or fewer code points is surfaced
  unchanged, in full and without the dots.
\<close>

theorem format_token_redacted:
  "(6 < length t \<longrightarrow>
      format_token t = ascii ''...'' @ last_six t \<and>
      length (last_six t) = 6 \<and> suffix (last_six t) t \<and>
      (sublist t (format_token t) \<longleftrightarrow>
         length t \<le> 9 \<and> set (take (length t - 6) t) \<subseteq> {46})) \<and>
   (length t \<le> 6 \<longrightarrow> format_token t = t)"
proof -
  have "suffix (last_six t) t"
    by (simp add: last_six_def suffix_drop)
  moreover have "6 < length t \<Longrightarrow> length (last_six t) = 6"
    by (simp add: length_last_six)
  moreover have "6 < length t \<Longrightarrow>
      sublist t (format_token t) \<longleftrightarrow>
        length t \<le> 9 \<and> set (take (length t - 6) t) \<subseteq> {46}"
    using format_token_contains_imp format_token_contains_if by blast
  ultimately show ?thesis
    by (simp add: format_token_def)
qed

theorem format_token_redacted_witness:
  "format_token (ascii ''aaaaaaaaaa1111'') = ascii ''...aa1111'' \<and>
   \<not> sublist (ascii ''aaaaaaaaaa1111'') (format_token (ascii ''aaaaaaaaaa1111'')) \<and>
   format_token (ascii ''abcdef'') = ascii ''abcdef''"
  using format_token_redacted [of "ascii ''aaaaaaaaaa1111''"]
    format_token_redacted [of "ascii ''abcdef''"]
  by (simp add: last_six_def format_token_def)

text \<open>
  Claim C8 as stated fails: the three-letter token \<open>abc\<close> is surfaced as \<open>abc\<close>, which is
  not three dots followed by its last six code points and is the full credential; and
  the seven-character token \<open>.abcdef\<close> is surfaced as \<open>...abcdef\<close>, which contains it.
\<close>

theorem format_token_short_counterexample:
  "format_token (ascii ''abc'') = ascii ''abc'' \<and>
   format_token (ascii ''abc'') \<noteq> ascii ''...'' @ last_six (ascii ''abc'') \<and>
   sublist (ascii ''abc'') (format_token (ascii ''abc'')) \<and>
   format_token (ascii ''.abcdef'') = [46, 46] @ ascii ''.abcdef''"
  by (simp add: format_token_def last_six_def)

section \<open>Submitting tokens\<close>

lemma split_nl_nonempty [simp]: "split_nl t \<noteq> []"
  by (induction t) (auto split: list.splits)




lemma join_nl_split: "join_nl (split_nl t) = t"
proof (induction t)
  case Nil
  then show ?case by simp
next
  case (Cons c cs)
  obtain l ls where sp: "split_nl cs = l # ls"
    by (cases "split_nl cs") auto
  show ?case
    using Cons sp by (cases ls) auto
qed

lemma split_nl_no_newline: "l \<in> set (split_nl t) \<Longrightarrow> 10 \<notin> set l"
proof (induction t arbitrary: l)
  case Nil
  then show ?case by simp
next
  case (Cons c cs)
  obtain l' ls where sp: "split_nl cs = l' # ls"
    by (cases "split_nl cs") auto
  show ?case
    using Cons sp by (auto split: if_splits)
qed









section \<open>Results of the remote status client\<close>







lemma ping_server_logs: "\<not> is_send x" if "x \<in> set (fst (ping_server tok http))"
  using that by (auto simp: ping_server_def Let_def split: sum.splits pyexc.splits prod.splits if_splits)

lemma get_position_logs: "\<not> is_send x" if "x \<in> set (fst (get_position tok http))"
  using that by (auto simp: get_position_def Let_def split: sum.splits pyexc.splits prod.splits if_splits)




section \<open>The polling loop\<close>

lemma status_field_absent [simp]: "status_field repr PNone key = Inr (ascii ''Error'')"
  by (simp add: status_field_def)

lemma iteration_sends:
  assumes "ping_server tok (ping_http e) = (l1, Inr pd)"
    and "get_position tok (position_http e) = (l2, Inr qd)"
    and "status_field repr pd (ascii ''status'') = Inr st"
    and "status_field repr qd (ascii ''behind'') = Inr pos"
  shows "iteration repr u tok e = (l1 @ l2 @ [Send u (status_update tok st pos)], send_result e)"
  using assms by (simp add: iteration_def)

lemma monitor_token_append:
  assumes "\<forall>e \<in> set pre. snd (iteration repr u tok e) = Inr ()"
  shows "monitor_token repr u tok (pre @ envs) =
           (concat (map (\<lambda>e. fst (iteration repr u tok e)) pre) @ fst (monitor_token repr u tok envs),
            snd (monitor_token repr u tok envs))"
  using assms
proof (induction pre)
  case Nil
  then show ?case by simp
next
  case (Cons e pre)
  obtain effs where it: "iteration repr u tok e = (effs, Inr ())"
    using Cons.prems by (cases "iteration repr u tok e") auto
  have ih: "monitor_token repr u tok (pre @ envs) =
      (concat (map (\<lambda>e. fst (iteration repr u tok e)) pre) @ fst (monitor_token repr u tok envs),
       snd (monitor_token repr u tok envs))"
    using Cons by simp
  show ?case
    by (simp add: it ih)
qed

lemma monitor_token_raise:
  assumes "iteration repr u tok e = (effs, Inl x)"
  shows "monitor_token repr u tok (e # rest) =
           (effs @ fst (handler tok x), Finished (snd (handler tok x)))"
  using assms by (simp add: case_prod_beta)






text \<open>
  Claim C2, as amended. When the notification send at the end of an iteration fails with
  an exception, the loop does not go on to a next iteration: the exception reaches the
  loop's catch-all clause and the loop is finished, whatever the later answers of the
  outside would have been. The status line of that iteration was handed to the chat
  platform.
\<close>

theorem delivery_failure_stops_loop:
  assumes pre: "\<forall>e \<in> set pre. snd (iteration repr u tok e) = Inr ()"
    and ping: "ping_server tok (ping_http env) = (l1, Inr pd)"
    and pos: "get_position tok (position_http env) = (l2, Inr qd)"
    and st: "status_field repr pd (ascii ''status'') = Inr st"
    and bh: "status_field repr qd (ascii ''behind'') = Inr behind"
    and fail: "send_result env = Inl (Exc c m)"
  shows "monitor_token repr u tok (pre @ env # rest) = monitor_token repr u tok (pre @ [env]) \<and>
         (\<exists>r. snd (monitor_token repr u tok (pre @ env # rest)) = Finished r) \<and>
         Send u (status_update tok st behind) \<in> set (fst (monitor_token repr u tok (pre @ env # rest)))"
proof -
  have it: "iteration repr u tok env =
      (l1 @ l2 @ [Send u (status_update tok st behind)], Inl (Exc c m))"
    using iteration_sends [OF ping pos st bh, of u] fail by simp
  have one: "monitor_token repr u tok (env # ys) =
      ((l1 @ l2 @ [Send u (status_update tok st behind)]) @ fst (handler tok (Exc c m)),
       Finished (snd (handler tok (Exc c m))))" for ys
    using it by (rule monitor_token_raise)
  have all: "monitor_token repr u tok (pre @ env # ys) =
      (concat (map (\<lambda>e. fst (iteration repr u tok e)) pre) @
         (l1 @ l2 @ [Send u (status_update tok st behind)]) @ fst (handler tok (Exc c m)),
       Finished (snd (handler tok (Exc c m))))" for ys
    using monitor_token_append [OF pre, of "env # ys"] by (simp only: one fst_conv snd_conv)
  show ?thesis
    by (simp add: all)
qed

text \<open>
  One accepted notification, then a rejected one: the third iteration is never run.
\<close>

theorem delivery_failure_stops_loop_witness:
  "monitor_token sample_repr 7 sample_token
      ([unavailable_env (Inr ())] @ unavailable_env rejected # [unavailable_env (Inr ())]) =
   monitor_token sample_repr 7 sample_token ([unavailable_env (Inr ())] @ [unavailable_env rejected]) \<and>
   snd (monitor_token sample_repr 7 sample_token
      ([unavailable_env (Inr ())] @ unavailable_env rejected # [unavailable_env (Inr ())])) =
     Finished (Inl name_error)"
  using delivery_failure_stops_loop [of "[unavailable_env (Inr ())]" sample_repr 7 sample_token
      "unavailable_env rejected"
      "[Log WARNING (ascii ''['' @ format_token sample_token @ ascii ''] Ping error: HTTP '' @ str_nat 503)]"
      PNone
      "[Log ERROR (ascii ''['' @ format_token sample_token @ ascii ''] Position error: '' @ ascii ''Cannot connect to host'')]"
      PNone "ascii ''Error''" "ascii ''Error''"
      "''Forbidden''" "ascii ''Forbidden: bot was blocked by the user''"
      "[unavailable_env (Inr ())]"]
  by (simp add: unavailable_env_def rejected_def ping_server_def get_position_def iteration_def
      handler_def)

text \<open>
  Claim C2 as stated fails: after a rejected notification the loop is finished, and the
  second iteration is not run.
\<close>

theorem delivery_failure_counterexample:
  "send_result (unavailable_env rejected) = rejected \<and>
   monitor_token sample_repr 7 sample_token [unavailable_env rejected, unavailable_env (Inr ())] =
     ([Log WARNING (ascii ''[...aa1111] Ping error: HTTP 503''),
       Log ERROR (ascii ''[...aa1111] Position error: Cannot connect to host''),
       Send 7 (status_update sample_token (ascii ''Error'') (ascii ''Error''))],
      Finished (Inl name_error))"
  by (simp add: unavailable_env_def rejected_def ping_server_def get_position_def iteration_def
      handler_def sample_token_def format_token_def last_six_def str_nat.simps)

section \<open>Starting and stopping\<close>

lemma spawn_eq:
  "spawn u tok s =
     s\<lparr>tasks := tasks s @ [new_task u tok],
       monitoring_tasks := (monitoring_tasks s)(u \<mapsto> handles s u @ [length (tasks s)])\<rparr>"
  by (simp add: spawn_def create_task_def handles_def)

lemma fold_spawn:
  assumes "monitoring_tasks s u = Some hs"
  shows "fold (spawn u) toks s =
           s\<lparr>tasks := tasks s @ map (new_task u) toks,
             monitoring_tasks :=
               (monitoring_tasks s)(u \<mapsto> hs @ [length (tasks s) ..< length (tasks s) + length toks])\<rparr>"
  using assms
proof (induction toks arbitrary: s hs)
  case Nil
  then have "(monitoring_tasks s)(u \<mapsto> hs) = monitoring_tasks s"
    by (rule map_upd_triv)
  then show ?case by simp
next
  case (Cons tok toks)
  let ?s1 = "spawn u tok s"
  have m1: "monitoring_tasks ?s1 u = Some (hs @ [length (tasks s)])"
    using Cons.prems by (simp add: spawn_eq handles_def)
  have t1: "tasks ?s1 = tasks s @ [new_task u tok]"
    by (simp add: spawn_eq)
  have upt: "[length (tasks s) ..< Suc (length (tasks s) + length toks)] =
      length (tasks s) # [Suc (length (tasks s)) ..< Suc (length (tasks s) + length toks)]"
    by (rule upt_conv_Cons) simp
  have "fold (spawn u) (tok # toks) s = fold (spawn u) toks ?s1"
    by simp
  also have "\<dots> = ?s1\<lparr>tasks := tasks ?s1 @ map (new_task u) toks,
      monitoring_tasks := (monitoring_tasks ?s1)
        (u \<mapsto> (hs @ [length (tasks s)]) @ [length (tasks ?s1) ..< length (tasks ?s1) + length toks])\<rparr>"
    by (rule Cons.IH [OF m1])
  also have "\<dots> = s\<lparr>tasks := tasks s @ map (new_task u) (tok # toks),
      monitoring_tasks := (monitoring_tasks s)
        (u \<mapsto> hs @ [length (tasks s) ..< length (tasks s) + length (tok # toks)])\<rparr>"
    using Cons.prems by (simp add: spawn_eq handles_def upt del: upt_Suc)
  finally show ?case .
qed

lemma start_monitoring_fresh:
  assumes "monitoring_tasks s u = None"
  shows "start_monitoring s u =
           (s\<lparr>tasks := tasks s @ map (new_task u) (tokens_of s u),
              monitoring_tasks :=
                (monitoring_tasks s)
                  (u \<mapsto> [length (tasks s) ..< length (tasks s) + length (tokens_of s u)])\<rparr>,
            started)"
proof -
  let ?s0 = "s\<lparr>monitoring_tasks := (monitoring_tasks s)(u \<mapsto> [])\<rparr>"
  have "fold (spawn u) (tokens_of s u) ?s0 =
      ?s0\<lparr>tasks := tasks ?s0 @ map (new_task u) (tokens_of s u),
        monitoring_tasks := (monitoring_tasks ?s0)
          (u \<mapsto> [] @ [length (tasks ?s0) ..< length (tasks ?s0) + length (tokens_of s u)])\<rparr>"
    by (rule fold_spawn) simp
  then show ?thesis
    using assms by (simp add: start_monitoring_def tokens_of_def)
qed

lemma start_monitoring_running:
  "monitoring_tasks s u \<noteq> None \<Longrightarrow> start_monitoring s u = (s, already_running)"
  by (simp add: start_monitoring_def)

text \<open>
  Claim C5. A second \<open>start_monitoring\<close> right after a first one replies that monitoring
  is already running and leaves the whole state as the first call left it: no task is
  created and no session changes.
\<close>

theorem start_monitoring_twice:
  "start_monitoring (fst (start_monitoring s u)) u = (fst (start_monitoring s u), already_running)"
proof (cases "monitoring_tasks s u")
  case None
  then show ?thesis
    by (simp add: start_monitoring_fresh start_monitoring_running)
next
  case (Some hs)
  then show ?thesis
    by (simp add: start_monitoring_running)
qed


lemma start_registered:
  "start_monitoring registered_state 7 = (monitoring_state, started)"
  by (simp add: registered_state_def monitoring_state_def tokens_of_def start_monitoring_fresh)


text \<open>From the same state, the second start changes nothing.\<close>

theorem start_monitoring_twice_witness:
  "start_monitoring (fst (start_monitoring registered_state 7)) 7 =
     (monitoring_state, already_running)"
  using start_monitoring_twice [of registered_state 7]
  by (simp add: start_registered)

lemma stop_monitoring_running:
  "monitoring_tasks s u = Some hs \<Longrightarrow>
     stop_monitoring s u =
       (s\<lparr>tasks := fold cancel_handle hs (tasks s),
          monitoring_tasks := (monitoring_tasks s)(u := None)\<rparr>, stopped)"
  by (simp add: stop_monitoring_def)

lemma stop_monitoring_idle:
  "monitoring_tasks s u = None \<Longrightarrow> stop_monitoring s u = (s, no_active_monitoring)"
  by (simp add: stop_monitoring_def)

lemma wf_state_cong:
  "monitoring_tasks s' = monitoring_tasks s \<Longrightarrow> tasks s' = tasks s \<Longrightarrow>
     wf_state s' = wf_state s"
  by (simp add: wf_state_def)

lemma wf_initial: "wf_state initial_state"
  by (simp add: wf_state_def initial_state_def)

lemma process_tokens_frame:
  "monitoring_tasks (fst (process_tokens s u text)) = monitoring_tasks s"
  "tasks (fst (process_tokens s u text)) = tasks s"
  by (simp_all add: process_tokens_def Let_def)

lemma remove_token_frame:
  "monitoring_tasks (fst (remove_token s u i)) = monitoring_tasks s"
  "tasks (fst (remove_token s u i)) = tasks s"
  by (simp_all add: remove_token_def Let_def)

lemma wf_process_tokens: "wf_state s \<Longrightarrow> wf_state (fst (process_tokens s u text))"
  using wf_state_cong [OF process_tokens_frame] by blast

lemma wf_remove_token: "wf_state s \<Longrightarrow> wf_state (fst (remove_token s u i))"
  using wf_state_cong [OF remove_token_frame] by blast

lemma wf_stateI:
  assumes "\<And>v hs h. monitoring_tasks s v = Some hs \<Longrightarrow> h \<in> set hs \<Longrightarrow>
             h < length (tasks s) \<and> task_user (tasks s ! h) = v"
    and "\<And>i. i < length (tasks s) \<Longrightarrow> task_status (tasks s ! i) = Running \<Longrightarrow>
             \<not> cancel_requested (tasks s ! i) \<Longrightarrow>
             \<exists>hs. monitoring_tasks s (task_user (tasks s ! i)) = Some hs \<and> i \<in> set hs"
  shows "wf_state s"
  unfolding wf_state_def using assms by blast

lemma wf_handle:
  "wf_state s \<Longrightarrow> monitoring_tasks s v = Some hs \<Longrightarrow> h \<in> set hs \<Longrightarrow>
     h < length (tasks s) \<and> task_user (tasks s ! h) = v"
  unfolding wf_state_def by blast

lemma wf_live:
  "wf_state s \<Longrightarrow> i < length (tasks s) \<Longrightarrow> task_status (tasks s ! i) = Running \<Longrightarrow>
     \<not> cancel_requested (tasks s ! i) \<Longrightarrow>
     \<exists>hs. monitoring_tasks s (task_user (tasks s ! i)) = Some hs \<and> i \<in> set hs"
  unfolding wf_state_def by blast

lemma wf_start_monitoring:
  assumes wf: "wf_state s"
  shows "wf_state (fst (start_monitoring s u))"
proof (cases "monitoring_tasks s u")
  case (Some hs)
  then show ?thesis
    using wf by (simp add: start_monitoring_running)
next
  case None
  define s' where "s' = fst (start_monitoring s u)"
  let ?T = "tasks s"
  let ?N = "map (new_task u) (tokens_of s u)"
  let ?n = "length ?T"
  let ?k = "length (tokens_of s u)"
  have T: "tasks s' = ?T @ ?N"
    by (simp add: s'_def start_monitoring_fresh [OF None])
  have M: "monitoring_tasks s' = (monitoring_tasks s)(u \<mapsto> [?n ..< ?n + ?k])"
    by (simp add: s'_def start_monitoring_fresh [OF None])
  have new: "task_user ((?T @ ?N) ! i) = u" if "?n \<le> i" "i < ?n + ?k" for i
    using that by (simp add: nth_append new_task_def)
  have "wf_state s'"
  proof (rule wf_stateI)
    fix v hs h
    assume m: "monitoring_tasks s' v = Some hs" and h: "h \<in> set hs"
    show "h < length (tasks s') \<and> task_user (tasks s' ! h) = v"
    proof (cases "v = u")
      case True
      then have "hs = [?n ..< ?n + ?k]"
        using m M by simp
      then have "?n \<le> h" "h < ?n + ?k"
        using h by simp_all
      then show ?thesis
        using new [of h] True T by simp
    next
      case False
      then have "monitoring_tasks s v = Some hs"
        using m M by simp
      then have "h < ?n \<and> task_user (?T ! h) = v"
        using wf h by (simp add: wf_handle)
      then show ?thesis
        using T by (simp add: nth_append)
    qed
  next
    fix i
    assume i: "i < length (tasks s')" and r: "task_status (tasks s' ! i) = Running"
      and c: "\<not> cancel_requested (tasks s' ! i)"
    show "\<exists>hs. monitoring_tasks s' (task_user (tasks s' ! i)) = Some hs \<and> i \<in> set hs"
    proof (cases "i < ?n")
      case True
      then have t: "tasks s' ! i = ?T ! i"
        using T by (simp add: nth_append)
      obtain hs where hs: "monitoring_tasks s (task_user (?T ! i)) = Some hs" "i \<in> set hs"
        using wf_live [OF wf True] r c t by auto
      then have "task_user (?T ! i) \<noteq> u"
        using None by auto
      then have "monitoring_tasks s' (task_user (tasks s' ! i)) = Some hs"
        using hs(1) t M by simp
      then show ?thesis
        using hs(2) by blast
    next
      case False
      then have le: "?n \<le> i" and lt: "i < ?n + ?k"
        using i T by simp_all
      have "task_user (tasks s' ! i) = u"
        using new [OF le lt] T by simp
      then have "monitoring_tasks s' (task_user (tasks s' ! i)) = Some [?n ..< ?n + ?k]"
        using M by simp
      moreover have "i \<in> set [?n ..< ?n + ?k]"
        using le lt by simp
      ultimately show ?thesis
        by blast
    qed
  qed
  then show ?thesis
    by (simp add: s'_def)
qed


lemma cancel_user [simp]: "task_user (cancel t) = task_user t"
  by (simp add: cancel_def)

lemma cancel_done: "task_status (cancel t) = Running \<Longrightarrow> cancel_requested (cancel t)"
  by (simp add: cancel_def split: if_splits)

lemma length_fold_cancel [simp]: "length (fold cancel_handle hs ts) = length ts"
  by (induction hs arbitrary: ts) (simp_all add: cancel_handle_def)

lemma nth_fold_cancel:
  "i < length ts \<Longrightarrow>
     fold cancel_handle hs ts ! i = (if i \<in> set hs then cancel (ts ! i) else ts ! i)"
proof (induction hs arbitrary: ts)
  case Nil
  then show ?case by simp
next
  case (Cons h hs)
  have idem: "cancel (cancel t) = cancel t" for t
    by (simp add: cancel_def)
  have len: "i < length (cancel_handle h ts)"
    using Cons.prems by (simp add: cancel_handle_def)
  have step: "cancel_handle h ts ! i = (if i = h then cancel (ts ! i) else ts ! i)"
    using Cons.prems by (auto simp: cancel_handle_def)
  have "fold cancel_handle (h # hs) ts ! i = fold cancel_handle hs (cancel_handle h ts) ! i"
    by simp
  also have "\<dots> = (if i \<in> set hs then cancel (cancel_handle h ts ! i) else cancel_handle h ts ! i)"
    by (rule Cons.IH [OF len])
  also have "\<dots> = (if i \<in> set (h # hs) then cancel (ts ! i) else ts ! i)"
    unfolding step by (simp add: idem)
  finally show ?case .
qed

lemma wf_stop_monitoring:
  assumes wf: "wf_state s"
  shows "wf_state (fst (stop_monitoring s u))"
proof (cases "monitoring_tasks s u")
  case None
  then show ?thesis
    using wf by (simp add: stop_monitoring_idle)
next
  case (Some hs)
  define s' where "s' = fst (stop_monitoring s u)"
  have T: "tasks s' = fold cancel_handle hs (tasks s)"
    by (simp add: s'_def stop_monitoring_running [OF Some])
  have M: "monitoring_tasks s' = (monitoring_tasks s)(u := None)"
    by (simp add: s'_def stop_monitoring_running [OF Some])
  have nth: "tasks s' ! i = (if i \<in> set hs then cancel (tasks s ! i) else tasks s ! i)"
    if "i < length (tasks s)" for i
    using that T by (simp add: nth_fold_cancel)
  have "wf_state s'"
  proof (rule wf_stateI)
    fix v hs' h
    assume m: "monitoring_tasks s' v = Some hs'" and h: "h \<in> set hs'"
    have "monitoring_tasks s v = Some hs'"
      using m M by (simp split: if_splits)
    then have old: "h < length (tasks s) \<and> task_user (tasks s ! h) = v"
      using wf h by (simp add: wf_handle)
    then have "task_user (tasks s' ! h) = v"
      using nth [of h] by simp
    then show "h < length (tasks s') \<and> task_user (tasks s' ! h) = v"
      using old T by simp
  next
    fix i
    assume i: "i < length (tasks s')" and r: "task_status (tasks s' ! i) = Running"
      and c: "\<not> cancel_requested (tasks s' ! i)"
    have i': "i < length (tasks s)"
      using i T by simp
    have notin: "i \<notin> set hs"
      using nth [OF i'] r c cancel_done [of "tasks s ! i"] by auto
    then have same: "tasks s' ! i = tasks s ! i"
      using nth [OF i'] by simp
    obtain hs' where hs': "monitoring_tasks s (task_user (tasks s ! i)) = Some hs'" "i \<in> set hs'"
      using wf_live [OF wf i'] r c same by auto
    have "task_user (tasks s ! i) \<noteq> u"
      using hs' Some notin by auto
    then have "monitoring_tasks s' (task_user (tasks s' ! i)) = Some hs'"
      using hs'(1) same M by simp
    then show "\<exists>hs. monitoring_tasks s' (task_user (tasks s' ! i)) = Some hs \<and> i \<in> set hs"
      using hs'(2) by blast
  qed
  then show ?thesis
    by (simp add: s'_def)
qed

lemma task_step_frame:
  "monitoring_tasks (task_step repr s tid env) = monitoring_tasks s"
  "user_tokens (task_step repr s tid env) = user_tokens s"
  "length (tasks (task_step repr s tid env)) = length (tasks s)"
  by (simp_all add: task_step_def Let_def split: loop_status.splits prod.splits if_splits)

lemma task_step_nth:
  assumes "i < length (tasks s)"
  shows "task_user (tasks (task_step repr s tid env) ! i) = task_user (tasks s ! i) \<and>
         task_token (tasks (task_step repr s tid env) ! i) = task_token (tasks s ! i) \<and>
         cancel_requested (tasks (task_step repr s tid env) ! i) = cancel_requested (tasks s ! i) \<and>
         (task_status (tasks (task_step repr s tid env) ! i) = Running \<longrightarrow>
            task_status (tasks s ! i) = Running) \<and>
         (i \<noteq> tid \<longrightarrow> tasks (task_step repr s tid env) ! i = tasks s ! i)"
  using assms
  by (auto simp: task_step_def Let_def nth_list_update
      split: loop_status.splits prod.splits if_splits)

lemma wf_task_step:
  assumes wf: "wf_state s"
  shows "wf_state (task_step repr s tid env)"
proof (rule wf_stateI)
  fix v hs h
  assume "monitoring_tasks (task_step repr s tid env) v = Some hs" and h: "h \<in> set hs"
  then have "monitoring_tasks s v = Some hs"
    by (simp add: task_step_frame)
  then have "h < length (tasks s) \<and> task_user (tasks s ! h) = v"
    using wf h by (simp add: wf_handle)
  then show "h < length (tasks (task_step repr s tid env)) \<and>
      task_user (tasks (task_step repr s tid env) ! h) = v"
    using task_step_nth [of h s repr tid env] by (simp add: task_step_frame)
next
  fix i
  assume i: "i < length (tasks (task_step repr s tid env))"
    and r: "task_status (tasks (task_step repr s tid env) ! i) = Running"
    and c: "\<not> cancel_requested (tasks (task_step repr s tid env) ! i)"
  have i': "i < length (tasks s)"
    using i by (simp add: task_step_frame)
  have "task_status (tasks s ! i) = Running" "\<not> cancel_requested (tasks s ! i)"
    using task_step_nth [OF i', of repr tid env] r c by simp_all
  then obtain hs where "monitoring_tasks s (task_user (tasks s ! i)) = Some hs" "i \<in> set hs"
    using wf_live [OF wf i'] by auto
  then show "\<exists>hs. monitoring_tasks (task_step repr s tid env)
      (task_user (tasks (task_step repr s tid env) ! i)) = Some hs \<and> i \<in> set hs"
    using task_step_nth [OF i', of repr tid env] by (simp add: task_step_frame)
qed

lemma wf_handle_button_click:
  assumes wf: "wf_state s"
  shows "wf_state (fst (handle_button_click s u b))"
proof -
  let ?s' = "if user_tokens s u = None then s\<lparr>user_tokens := (user_tokens s)(u \<mapsto> [])\<rparr> else s"
  have "wf_state ?s'"
    using wf by (simp add: wf_state_def)
  then show ?thesis
    unfolding handle_button_click_def Let_def
    by (cases b)
      (simp_all only: button.case wf_start_monitoring wf_stop_monitoring wf_remove_token fst_conv)
qed

lemma wf_exec: "wf_state s \<Longrightarrow> wf_state (exec repr ev s)"
  by (cases ev) (simp_all add: wf_handle_button_click wf_process_tokens wf_task_step)

lemma wf_run: "wf_state s \<Longrightarrow> wf_state (run repr evs s)"
  unfolding run_def by (induction evs arbitrary: s) (simp_all add: wf_exec)

text \<open>
  Claim C4. When the user has a session, \<open>stop_monitoring\<close> replies that monitoring
  stopped, requests the cancellation of every handle of the session that is still
  running, and removes the session, so the user has no handle left; in a well-formed
  state no task of the user is then running without a cancellation request, however
  many there were. Token lists and other users' sessions are untouched. Stopping again,
  or stopping without a session, replies that there is no active monitoring and changes
  nothing.
\<close>

theorem stop_monitoring_cancels_all:
  "(monitoring_tasks s u = Some hs \<longrightarrow>
      snd (stop_monitoring s u) = stopped \<and>
      monitoring_tasks (fst (stop_monitoring s u)) u = None \<and>
      handles (fst (stop_monitoring s u)) u = [] \<and>
      (\<forall>h \<in> set hs. h < length (tasks s) \<longrightarrow>
         task_status (tasks (fst (stop_monitoring s u)) ! h) \<noteq> Running \<or>
         cancel_requested (tasks (fst (stop_monitoring s u)) ! h)) \<and>
      (wf_state s \<longrightarrow>
         (\<forall>t \<in> set (tasks (fst (stop_monitoring s u))).
            task_user t = u \<longrightarrow> task_status t \<noteq> Running \<or> cancel_requested t)) \<and>
      user_tokens (fst (stop_monitoring s u)) = user_tokens s \<and>
      (\<forall>v. v \<noteq> u \<longrightarrow> monitoring_tasks (fst (stop_monitoring s u)) v = monitoring_tasks s v) \<and>
      stop_monitoring (fst (stop_monitoring s u)) u =
        (fst (stop_monitoring s u), no_active_monitoring)) \<and>
   (monitoring_tasks s u = None \<longrightarrow> stop_monitoring s u = (s, no_active_monitoring))"
proof (rule conjI; rule impI)
  assume none: "monitoring_tasks s u = None"
  then show "stop_monitoring s u = (s, no_active_monitoring)"
    by (rule stop_monitoring_idle)
next
  assume some: "monitoring_tasks s u = Some hs"
  define s' where "s' = fst (stop_monitoring s u)"
  have T: "tasks s' = fold cancel_handle hs (tasks s)"
    by (simp add: s'_def stop_monitoring_running [OF some])
  have M: "monitoring_tasks s' = (monitoring_tasks s)(u := None)"
    by (simp add: s'_def stop_monitoring_running [OF some])
  have U: "user_tokens s' = user_tokens s"
    by (simp add: s'_def stop_monitoring_running [OF some])
  have reply: "snd (stop_monitoring s u) = stopped"
    by (simp add: stop_monitoring_running [OF some])
  have gone: "monitoring_tasks s' u = None"
    using M by simp
  have cancelled: "\<forall>h \<in> set hs. h < length (tasks s) \<longrightarrow>
      task_status (tasks s' ! h) \<noteq> Running \<or> cancel_requested (tasks s' ! h)"
    using cancel_done by (auto simp: T nth_fold_cancel)
  have none_left: "\<forall>t \<in> set (tasks s'). task_user t = u \<longrightarrow>
      task_status t \<noteq> Running \<or> cancel_requested t" if wf: "wf_state s"
  proof (intro ballI impI)
    fix t
    assume "t \<in> set (tasks s')" and user: "task_user t = u"
    then obtain i where i: "i < length (tasks s')" and t: "tasks s' ! i = t"
      by (auto simp: in_set_conv_nth)
    have wf': "wf_state s'"
      unfolding s'_def using wf by (rule wf_stop_monitoring)
    show "task_status t \<noteq> Running \<or> cancel_requested t"
    proof (rule ccontr)
      assume "\<not> (task_status t \<noteq> Running \<or> cancel_requested t)"
      then have "\<exists>hs. monitoring_tasks s' (task_user (tasks s' ! i)) = Some hs \<and> i \<in> set hs"
        using wf_live [OF wf' i] t by simp
      then show False
        using t user gone by simp
    qed
  qed
  have again: "stop_monitoring s' u = (s', no_active_monitoring)"
    using gone by (rule stop_monitoring_idle)
  show "snd (stop_monitoring s u) = stopped \<and>
      monitoring_tasks (fst (stop_monitoring s u)) u = None \<and>
      handles (fst (stop_monitoring s u)) u = [] \<and>
      (\<forall>h \<in> set hs. h < length (tasks s) \<longrightarrow>
         task_status (tasks (fst (stop_monitoring s u)) ! h) \<noteq> Running \<or>
         cancel_requested (tasks (fst (stop_monitoring s u)) ! h)) \<and>
      (wf_state s \<longrightarrow>
         (\<forall>t \<in> set (tasks (fst (stop_monitoring s u))).
            task_user t = u \<longrightarrow> task_status t \<noteq> Running \<or> cancel_requested t)) \<and>
      user_tokens (fst (stop_monitoring s u)) = user_tokens s \<and>
      (\<forall>v. v \<noteq> u \<longrightarrow> monitoring_tasks (fst (stop_monitoring s u)) v = monitoring_tasks s v) \<and>
      stop_monitoring (fst (stop_monitoring s u)) u =
        (fst (stop_monitoring s u), no_active_monitoring)"
    unfolding s'_def [symmetric]
    using reply gone cancelled none_left U again M
    by (simp add: handles_def)
qed

lemma monitoring_state_run:
  "run repr [Text 7 (sample_token @ [10] @ second_token), Button 7 StartMonitoring] initial_state =
     monitoring_state"
  by (simp add: run_def process_tokens_def initial_state_def tokens_of_def strip_def isspace_def
      handle_button_click_def start_monitoring_def spawn_def create_task_def handles_def
      monitoring_state_def sample_token_def second_token_def added_reply_def)

lemma wf_monitoring_state: "wf_state monitoring_state"
proof -
  have "wf_state (run sample_repr
      [Text 7 (sample_token @ [10] @ second_token), Button 7 StartMonitoring] initial_state)"
    by (rule wf_run [OF wf_initial])
  then show ?thesis
    by (simp only: monitoring_state_run)
qed

text \<open>
  Stopping the session with two running loops, stopping it again, and stopping with no
  session.
\<close>

theorem stop_monitoring_cancels_all_witness:
  "monitoring_tasks monitoring_state 7 = Some [0, 1] \<and>
   stop_monitoring monitoring_state 7 =
     (registered_state\<lparr>tasks :=
        [(new_task 7 sample_token)\<lparr>cancel_requested := True\<rparr>,
         (new_task 7 second_token)\<lparr>cancel_requested := True\<rparr>]\<rparr>, stopped) \<and>
   map cancel_requested (tasks (fst (stop_monitoring monitoring_state 7))) = [True, True] \<and>
   snd (stop_monitoring (fst (stop_monitoring monitoring_state 7)) 7) = no_active_monitoring \<and>
   stop_monitoring registered_state 7 = (registered_state, no_active_monitoring)"
  using stop_monitoring_cancels_all [of monitoring_state 7 "[0, 1]"]
    stop_monitoring_cancels_all [of registered_state 7 "[]"] wf_monitoring_state
  by (simp add: monitoring_state_def registered_state_def stop_monitoring_def cancel_handle_def
      cancel_def new_task_def)

section \<open>Sessions and the polling loops\<close>

lemma run_steps_sessions:
  "\<forall>ev \<in> set evs. is_step ev \<Longrightarrow> monitoring_tasks (run repr evs s) = monitoring_tasks s"
  unfolding run_def
proof (induction evs arbitrary: s)
  case Nil
  then show ?case by simp
next
  case (Cons ev evs)
  then obtain tid env where ev: "ev = Step tid env"
    by (cases ev) auto
  have "monitoring_tasks (fold (exec repr) evs (exec repr ev s)) = monitoring_tasks (exec repr ev s)"
    using Cons by simp
  then show ?case
    by (simp add: ev task_step_frame)
qed

lemma dom_start_monitoring:
  "dom (monitoring_tasks (fst (start_monitoring s u))) = insert u (dom (monitoring_tasks s))"
proof (cases "monitoring_tasks s u")
  case None
  then show ?thesis
    by (simp add: start_monitoring_fresh)
next
  case (Some hs)
  then show ?thesis
    by (auto simp: start_monitoring_running)
qed

lemma dom_stop_monitoring:
  "dom (monitoring_tasks (fst (stop_monitoring s u))) = dom (monitoring_tasks s) - {u}"
proof (cases "monitoring_tasks s u")
  case None
  then show ?thesis
    by (auto simp: stop_monitoring_idle)
next
  case (Some hs)
  then show ?thesis
    by (simp add: stop_monitoring_running)
qed

lemma dom_exec:
  "dom (monitoring_tasks (exec repr ev s)) =
     (case ev of
        Button u StartMonitoring \<Rightarrow> insert u (dom (monitoring_tasks s))
      | Button u StopMonitoring \<Rightarrow> dom (monitoring_tasks s) - {u}
      | _ \<Rightarrow> dom (monitoring_tasks s))"
proof (cases ev)
  case (Button u b)
  let ?s' = "if user_tokens s u = None then s\<lparr>user_tokens := (user_tokens s)(u \<mapsto> [])\<rparr> else s"
  have m: "monitoring_tasks ?s' = monitoring_tasks s"
    by simp
  show ?thesis
  proof (cases b)
    case StartMonitoring
    have "dom (monitoring_tasks (fst (start_monitoring ?s' u))) = insert u (dom (monitoring_tasks ?s'))"
      by (rule dom_start_monitoring)
    then show ?thesis
      unfolding m by (simp add: Button StartMonitoring handle_button_click_def)
  next
    case StopMonitoring
    have "dom (monitoring_tasks (fst (stop_monitoring ?s' u))) = dom (monitoring_tasks ?s') - {u}"
      by (rule dom_stop_monitoring)
    then show ?thesis
      unfolding m by (simp add: Button StopMonitoring handle_button_click_def)
  next
    case (RemoveToken i)
    have "monitoring_tasks (fst (remove_token ?s' u i)) = monitoring_tasks ?s'"
      by (rule remove_token_frame)
    then show ?thesis
      unfolding m by (simp add: Button RemoveToken handle_button_click_def)
  next
    case OtherButton
    then show ?thesis
      by (simp add: Button handle_button_click_def)
  qed
next
  case (Text u submitted)
  then show ?thesis
    by (simp add: process_tokens_frame)
next
  case (Step tid env)
  then show ?thesis
    by (simp add: task_step_frame)
qed

text \<open>
  Claim C10. The users that have a session change only at a start button (the user is
  added) and at a stop button (the user is removed): every other event, and every step
  of a polling loop in particular, leaves the sessions as they are. So after any steps
  of the loops, whether they still run or have all ended, a user who had a session is
  still told that monitoring is already running, and stopping still reports a stop.
\<close>

theorem sessions_changed_only_by_start_and_stop:
  "dom (monitoring_tasks (exec repr ev s)) =
     (case ev of
        Button u StartMonitoring \<Rightarrow> insert u (dom (monitoring_tasks s))
      | Button u StopMonitoring \<Rightarrow> dom (monitoring_tasks s) - {u}
      | _ \<Rightarrow> dom (monitoring_tasks s)) \<and>
   ((\<forall>ev \<in> set evs. is_step ev) \<longrightarrow>
      monitoring_tasks (run repr evs s) = monitoring_tasks s \<and>
      (monitoring_tasks s u \<noteq> None \<longrightarrow>
         start_monitoring (run repr evs s) u = (run repr evs s, already_running) \<and>
         snd (stop_monitoring (run repr evs s) u) = stopped \<and>
         monitoring_tasks (fst (stop_monitoring (run repr evs s) u)) u = None))"
proof (rule conjI)
  show "dom (monitoring_tasks (exec repr ev s)) =
     (case ev of
        Button u StartMonitoring \<Rightarrow> insert u (dom (monitoring_tasks s))
      | Button u StopMonitoring \<Rightarrow> dom (monitoring_tasks s) - {u}
      | _ \<Rightarrow> dom (monitoring_tasks s))"
    by (rule dom_exec)
next
  show "(\<forall>ev \<in> set evs. is_step ev) \<longrightarrow>
      monitoring_tasks (run repr evs s) = monitoring_tasks s \<and>
      (monitoring_tasks s u \<noteq> None \<longrightarrow>
         start_monitoring (run repr evs s) u = (run repr evs s, already_running) \<and>
         snd (stop_monitoring (run repr evs s) u) = stopped \<and>
         monitoring_tasks (fst (stop_monitoring (run repr evs s) u)) u = None)"
  proof (intro impI conjI)
    assume steps: "\<forall>ev \<in> set evs. is_step ev"
    show same: "monitoring_tasks (run repr evs s) = monitoring_tasks s"
      using steps by (rule run_steps_sessions)
    assume "monitoring_tasks s u \<noteq> None"
    then obtain hs where hs: "monitoring_tasks (run repr evs s) u = Some hs"
      using same by auto
    show "start_monitoring (run repr evs s) u = (run repr evs s, already_running)"
      using hs by (simp add: start_monitoring_running)
    show "snd (stop_monitoring (run repr evs s) u) = stopped"
      using hs by (simp add: stop_monitoring_running)
    show "monitoring_tasks (fst (stop_monitoring (run repr evs s) u)) u = None"
      using hs by (simp add: stop_monitoring_running)
  qed
qed

lemma crash_step:
  "iteration repr u tok list_body_env =
     ([], Inl (Exc ''AttributeError''
        ([39] @ ascii ''list'' @ [39] @ ascii '' object has no attribute '' @
         [39] @ ascii ''get'' @ [39])))"
  by (simp add: iteration_def list_body_env_def ping_server_def get_position_def status_field_def)

lemma crashed_state_run:
  "run repr [Step 0 list_body_env, Step 1 list_body_env] monitoring_state = crashed_state"
  by (simp add: run_def task_step_def monitoring_state_def crashed_state_def new_task_def
      deliver_cancel_def crash_step handler_def name_error_def)

text \<open>
  Both loops of the session end with an exception; the session is still there, a start
  is answered with "already running" and a stop with "stopped".
\<close>

theorem sessions_changed_only_by_start_and_stop_witness:
  "is_step (Step 0 list_body_env) \<and> is_step (Step 1 list_body_env) \<and>
   run sample_repr [Step 0 list_body_env, Step 1 list_body_env] monitoring_state = crashed_state \<and>
   map task_status (tasks crashed_state) = [Finished (Inl name_error), Finished (Inl name_error)] \<and>
   monitoring_tasks crashed_state 7 = Some [0, 1] \<and>
   start_monitoring crashed_state 7 = (crashed_state, already_running) \<and>
   snd (stop_monitoring crashed_state 7) = stopped"
proof -
  have run: "run sample_repr [Step 0 list_body_env, Step 1 list_body_env] monitoring_state =
      crashed_state"
    by (rule crashed_state_run)
  have steps: "\<forall>ev \<in> set [Step 0 list_body_env, Step 1 list_body_env]. is_step ev"
    by simp
  have session: "monitoring_tasks monitoring_state 7 \<noteq> None"
    by (simp add: monitoring_state_def)
  have "start_monitoring
          (run sample_repr [Step 0 list_body_env, Step 1 list_body_env] monitoring_state) 7 =
        (run sample_repr [Step 0 list_body_env, Step 1 list_body_env] monitoring_state,
         already_running) \<and>
      snd (stop_monitoring
          (run sample_repr [Step 0 list_body_env, Step 1 list_body_env] monitoring_state) 7) =
        stopped"
    using sessions_changed_only_by_start_and_stop [of sample_repr "Step 0 list_body_env"
        monitoring_state "[Step 0 list_body_env, Step 1 list_body_env]" 7] steps session
    by blast
  then have "start_monitoring crashed_state 7 = (crashed_state, already_running) \<and>
      snd (stop_monitoring crashed_state 7) = stopped"
    unfolding run .
  moreover have "map task_status (tasks crashed_state) =
      [Finished (Inl name_error), Finished (Inl name_error)]"
    by (simp add: crashed_state_def)
  moreover have "monitoring_tasks crashed_state 7 = Some [0, 1]"
    by (simp add: crashed_state_def monitoring_state_def)
  ultimately show ?thesis
    using run by simp
qed

lemma handler_logs: "x \<in> set (fst (handler tok e)) \<Longrightarrow> \<not> is_send x"
  by (auto simp: handler_def split: pyexc.splits)

lemma iteration_sends_status:
  assumes "x \<in> set (fst (iteration repr u tok env))" and "is_send x"
  shows "\<exists>st pos. x = Send u (status_update tok st pos)"
proof -
  have "\<not> is_send y" if "y \<in> set (fst (ping_server tok (ping_http env)))" for y
    using that by (rule ping_server_logs)
  moreover have "\<not> is_send y" if "y \<in> set (fst (get_position tok (position_http env)))" for y
    using that by (rule get_position_logs)
  ultimately show ?thesis
    using assms
    by (auto simp: iteration_def split: prod.splits sum.splits)
qed

lemma monitor_token_sends_status:
  "x \<in> set (fst (monitor_token repr u tok envs)) \<Longrightarrow> is_send x \<Longrightarrow>
     \<exists>st pos. x = Send u (status_update tok st pos)"
proof (induction envs)
  case Nil
  then show ?case by simp
next
  case (Cons env envs)
  obtain effs r where it: "iteration repr u tok env = (effs, r)"
    by (cases "iteration repr u tok env")
  have effs: "\<exists>st pos. x = Send u (status_update tok st pos)" if "x \<in> set effs"
    using iteration_sends_status [of x repr u tok env] that Cons.prems(2) it by simp
  show ?case
  proof (cases r)
    case (Inl e)
    then have "x \<in> set effs \<or> x \<in> set (fst (handler tok e))"
      using Cons.prems(1) it by (simp add: case_prod_beta)
    then show ?thesis
      using effs handler_logs Cons.prems(2) by blast
  next
    case (Inr v)
    then have "x \<in> set effs \<or> x \<in> set (fst (monitor_token repr u tok envs))"
      using Cons.prems(1) it by (simp add: case_prod_beta)
    then show ?thesis
      using effs Cons.IH Cons.prems(2) by blast
  qed
qed

lemma status_update_not_crash_notice: "status_update tok st pos \<noteq> crash_notice tok'"
  by (simp add: status_update_def crash_notice_def)

text \<open>
  Claim C1 fails on the code. When the ping answers 200 with a JSON array, the first
  iteration raises \<open>AttributeError\<close>; the handler then raises \<open>NameError\<close> before it
  logs or notifies, so the loop ends having sent nothing. Only that task ends: the
  sibling task and the session are as before. In no run at all does a loop send the
  "crashed, restart required" notification.
\<close>

theorem crash_sends_no_notification:
  "monitor_token repr 7 sample_token (list_body_env # rest) = ([], Finished (Inl name_error)) \<and>
   run repr [Step 0 list_body_env] monitoring_state =
     monitoring_state\<lparr>tasks :=
       [(new_task 7 sample_token)\<lparr>task_started := True, task_status := Finished (Inl name_error)\<rparr>,
        new_task 7 second_token]\<rparr> \<and>
   Send u' (crash_notice tok') \<notin> set (fst (monitor_token repr u tok envs))"
proof (intro conjI)
  show "monitor_token repr 7 sample_token (list_body_env # rest) = ([], Finished (Inl name_error))"
    by (simp add: crash_step handler_def name_error_def)
  show "run repr [Step 0 list_body_env] monitoring_state =
     monitoring_state\<lparr>tasks :=
       [(new_task 7 sample_token)\<lparr>task_started := True, task_status := Finished (Inl name_error)\<rparr>,
        new_task 7 second_token]\<rparr>"
    by (simp add: run_def task_step_def monitoring_state_def new_task_def
      deliver_cancel_def crash_step handler_def name_error_def)
  show "Send u' (crash_notice tok') \<notin> set (fst (monitor_token repr u tok envs))"
  proof
    assume "Send u' (crash_notice tok') \<in> set (fst (monitor_token repr u tok envs))"
    then obtain st pos where "Send u' (crash_notice tok') = Send u (status_update tok st pos)"
      using monitor_token_sends_status by fastforce
    then have "status_update tok st pos = crash_notice tok'"
      by simp
    then show False
      using status_update_not_crash_notice by blast
  qed
qed

end
